theory Spec2Isabelle
  imports Main
begin

section \<open>The Mnemonic class of bitcoinlib (BIP-0039)\<close>

text \<open>
  A shallow embedding of \<^verbatim>\<open>bitcoinlib/mnemonic.py\<close>, read as Python 3 (every
  \<^verbatim>\<open>sys.version < '3'\<close> branch is the Python 2 one and is left out).

  Conventions.
  \<^item> A \<^verbatim>\<open>str\<close> is a \<open>string\<close>, taken as its UTF-8 bytes, so \<^verbatim>\<open>.encode()\<close> is the
    identity.
  \<^item> A \<^verbatim>\<open>bytes\<close> value is the list of its byte values, a bit string (a \<^verbatim>\<open>str\<close> of
    the characters 0 and 1) the list of its bit values, a list of word indices the list
    itself: all three are digit sequences, \<open>nat list\<close>, most significant digit first.
  \<^item> An exception is a value of \<open>error\<close>; a method returns \<open>error + 'a\<close>.
  \<^item> What the module imports or reads from its surroundings is a field of \<open>env\<close>.
\<close>

subsection \<open>Exceptions\<close>

datatype error =
    InvalidLength
      \<comment> \<open>\<^verbatim>\<open>ValueError\<close> raised by \<^verbatim>\<open>checksum\<close> and by \<^verbatim>\<open>generate\<close>\<close>
  | NegativeArgument
      \<comment> \<open>\<^verbatim>\<open>ValueError\<close> of \<^verbatim>\<open>os.urandom\<close> for a negative size\<close>
  | InvalidChecksum
      \<comment> \<open>\<^verbatim>\<open>Warning("Invalid checksum ...")\<close>\<close>
  | UnknownLanguage
      \<comment> \<open>\<^verbatim>\<open>Warning("Could not detect language ...")\<close>\<close>
  | UnrecognisedWord string
      \<comment> \<open>\<^verbatim>\<open>Warning("Unrecognised word ...")\<close>, with the word\<close>
  | NotInList string
      \<comment> \<open>\<^verbatim>\<open>ValueError\<close> of \<^verbatim>\<open>list.index\<close>, with the value looked for\<close>
  | IndexError
      \<comment> \<open>list index out of range\<close>
  | NotFound string
      \<comment> \<open>\<^verbatim>\<open>open\<close> of a file that does not exist, with the file name\<close>
  | EmptySequence
      \<comment> \<open>\<^verbatim>\<open>ValueError\<close> of \<^verbatim>\<open>max\<close> on an empty sequence\<close>
  | TypeError
      \<comment> \<open>an operation on sequences applied to a number\<close>

subsection \<open>Python lists and strings\<close>

text \<open>\<^verbatim>\<open>xs[i]\<close>: an index below zero counts from the end.\<close>

definition getitem :: "'a list \<Rightarrow> int \<Rightarrow> error + 'a" where
  "getitem xs i =
     (if 0 \<le> i \<and> i < int (length xs) then Inr (xs ! nat i)
      else if i < 0 \<and> - int (length xs) \<le> i then Inr (xs ! nat (int (length xs) + i))
      else Inl IndexError)"

text \<open>\<^verbatim>\<open>xs.index(w)\<close>: the first position of \<open>w\<close>, or \<^verbatim>\<open>ValueError\<close>.\<close>

fun first_index :: "'a list \<Rightarrow> 'a \<Rightarrow> nat option" where
  "first_index [] w = None"
| "first_index (x # xs) w = (if x = w then Some 0 else map_option Suc (first_index xs w))"

definition list_index :: "string list \<Rightarrow> string \<Rightarrow> error + nat" where
  "list_index xs w = (case first_index xs w of None \<Rightarrow> Inl (NotInList w) | Some i \<Rightarrow> Inr i)"

text \<open>
  The position a slice bound stands for: a negative bound counts from the end, and
  every bound is clamped to the list. \<^verbatim>\<open>xs[:j]\<close> is \<open>slice_to xs j\<close> and \<^verbatim>\<open>xs[j:]\<close>
  is \<open>slice_from xs j\<close>.
\<close>

definition slice_bound :: "'a list \<Rightarrow> int \<Rightarrow> nat" where
  "slice_bound xs j = (if j < 0 then nat (int (length xs) + j) else min (nat j) (length xs))"

definition slice_to :: "'a list \<Rightarrow> int \<Rightarrow> 'a list" where
  "slice_to xs j = take (slice_bound xs j) xs"

definition slice_from :: "'a list \<Rightarrow> int \<Rightarrow> 'a list" where
  "slice_from xs j = drop (slice_bound xs j) xs"

text \<open>\<^verbatim>\<open>s.split(' ')\<close> cuts at every single space; \<^verbatim>\<open>' '.join(ws)\<close>.\<close>

fun split_space :: "string \<Rightarrow> string list" where
  "split_space [] = [[]]"
| "split_space (c # cs) =
     (if c = CHR '' '' then [] # split_space cs
      else (case split_space cs of [] \<Rightarrow> [[c]] | w # ws \<Rightarrow> (c # w) # ws))"

fun join_space :: "string list \<Rightarrow> string" where
  "join_space [] = []"
| "join_space [w] = w"
| "join_space (w # v # ws) = w @ CHR '' '' # join_space (v # ws)"

definition endswith :: "string \<Rightarrow> string \<Rightarrow> bool" where
  "endswith s suffix \<longleftrightarrow>
     length suffix \<le> length s \<and> drop (length s - length suffix) s = suffix"

text \<open>A comprehension or loop whose body may raise: the first exception ends it.\<close>

fun traverse :: "('a \<Rightarrow> error + 'b) \<Rightarrow> 'a list \<Rightarrow> error + 'b list" where
  "traverse f [] = Inr []"
| "traverse f (x # xs) =
     (case f x of
        Inl e \<Rightarrow> Inl e
      | Inr y \<Rightarrow> (case traverse f xs of Inl e \<Rightarrow> Inl e | Inr ys \<Rightarrow> Inr (y # ys)))"

text \<open>
  A \<^verbatim>\<open>dict\<close> in insertion order: an assignment to a key it holds keeps the key's
  place. \<^verbatim>\<open>max(d.keys(), key=lambda key: d[key])\<close> returns the first key whose
  value is the greatest, and raises on an empty \<^verbatim>\<open>dict\<close>.
\<close>

fun dict_set :: "('k \<times> 'v) list \<Rightarrow> 'k \<Rightarrow> 'v \<Rightarrow> ('k \<times> 'v) list" where
  "dict_set [] k v = [(k, v)]"
| "dict_set ((k', v') # d) k v =
     (if k' = k then (k, v) # d else (k', v') # dict_set d k v)"

fun max_key :: "('k \<times> nat) list \<Rightarrow> ('k \<times> nat) option" where
  "max_key [] = None"
| "max_key ((k, v) # d) =
     (case max_key d of
        None \<Rightarrow> Some (k, v)
      | Some (k', v') \<Rightarrow> if v < v' then Some (k', v') else Some (k, v))"

subsection \<open>Numbers and their digits\<close>

text \<open>
  The number a digit sequence denotes in base \<open>b\<close>, and the \<open>n\<close>-digit numeral of a
  number. They state what a call of \<^verbatim>\<open>change_base\<close> returns.
\<close>

definition from_base :: "nat \<Rightarrow> nat list \<Rightarrow> nat" where
  "from_base b ds = foldl (\<lambda>a d. a * b + d) 0 ds"

fun to_base :: "nat \<Rightarrow> nat \<Rightarrow> nat \<Rightarrow> nat list" where
  "to_base b 0 v = []"
| "to_base b (Suc n) v = to_base b n (v div b) @ [v mod b]"

subsection \<open>What the module imports and reads\<close>

text \<open>
  Python does not fix the type of what the helpers of \<^verbatim>\<open>bitcoinlib.encoding\<close> return: a
  value is a sequence of digits (\<^verbatim>\<open>bytes\<close>, a \<^verbatim>\<open>str\<close>, a list of numbers) or a number.
  Taking the length of a number, slicing it, adding it to a string or iterating over it
  raises \<^verbatim>\<open>TypeError\<close>.
\<close>

datatype pyval = Seq "nat list" | Num nat

definition seq_of :: "pyval \<Rightarrow> error + nat list" where
  "seq_of v = (case v of Seq ds \<Rightarrow> Inr ds | Num n \<Rightarrow> Inl TypeError)"

text \<open>
  \<^item> \<open>change_base chars base_from base_to min_length output_even\<close>, \<open>to_bytes\<close>,
    \<open>normalize_string\<close>: \<^verbatim>\<open>bitcoinlib.encoding\<close>; \<open>output_even\<close> is \<open>None\<close> where the
    call does not pass it.
  \<^item> \<open>sha256 data\<close>: \<^verbatim>\<open>hashlib.sha256(data).digest()\<close>.
  \<^item> \<open>pbkdf2 password salt iterations\<close>: the key stream of \<^verbatim>\<open>PBKDF2(password, salt,
    iterations=iterations, macmodule=hmac, digestmodule=hashlib.sha512)\<close>, byte by
    position; \<^verbatim>\<open>.read(n)\<close> returns its first \<open>n\<close> bytes.
  \<^item> \<open>urandom n\<close>: the bytes \<^verbatim>\<open>os.urandom(n)\<close> returns.
  \<^item> \<open>wordlist_dir\<close>: the files of \<^verbatim>\<open>WORDLIST_DIR\<close> in the order \<^verbatim>\<open>os.listdir\<close>
    gives them, each with its lines, stripped as \<^verbatim>\<open>[w.strip() for w in f.readlines()]\<close>
    does.
\<close>

record env =
  change_base :: "pyval \<Rightarrow> nat \<Rightarrow> nat \<Rightarrow> nat \<Rightarrow> bool option \<Rightarrow> pyval"
  to_bytes :: "pyval \<Rightarrow> pyval"
  normalize_string :: "string \<Rightarrow> string"
  sha256 :: "nat list \<Rightarrow> nat list"
  pbkdf2 :: "string \<Rightarrow> string \<Rightarrow> nat \<Rightarrow> nat \<Rightarrow> nat"
  urandom :: "nat \<Rightarrow> nat list"
  wordlist_dir :: "(string \<times> string list) list"

definition read :: "(nat \<Rightarrow> nat) \<Rightarrow> nat \<Rightarrow> nat list" where
  "read stream n = map stream [0..<n]"

definition PBKDF2_ROUNDS :: nat where
  "PBKDF2_ROUNDS = 2048"

definition DEFAULT_LANGUAGE :: string where
  "DEFAULT_LANGUAGE = ''english''"

text \<open>\<^verbatim>\<open>open('%s/%s.txt' % (WORDLIST_DIR, language), 'r')\<close> and the lines read.\<close>

definition read_wordlist :: "env \<Rightarrow> string \<Rightarrow> error + string list" where
  "read_wordlist E language =
     (case map_of (wordlist_dir E) (language @ ''.txt'') of
        None \<Rightarrow> Inl (NotFound (language @ ''.txt''))
      | Some ws \<Rightarrow> Inr ws)"

subsection \<open>The class\<close>

record mnemonic =
  wordlist :: "string list"

text \<open>\<^verbatim>\<open>__init__\<close>\<close>

definition init :: "env \<Rightarrow> string \<Rightarrow> error + mnemonic" where
  "init E language =
     (case read_wordlist E language of
        Inl e \<Rightarrow> Inl e
      | Inr ws \<Rightarrow> Inr \<lparr>wordlist = ws\<rparr>)"

text \<open>
  \<^verbatim>\<open>checksum\<close>. \<^verbatim>\<open>len(data)\<close> is taken of what \<^verbatim>\<open>to_bytes\<close> returned, and the slice
  of what \<^verbatim>\<open>change_base\<close> returned.
\<close>

definition checksum :: "env \<Rightarrow> pyval \<Rightarrow> error + nat list" where
  "checksum E data =
     (case seq_of (to_bytes E data) of
        Inl e \<Rightarrow> Inl e
      | Inr data1 \<Rightarrow>
          if length data1 mod 4 > 0 then Inl InvalidLength
          else (case seq_of (change_base E (Seq (sha256 E data1)) 256 2 256 None) of
                  Inl e \<Rightarrow> Inl e
                | Inr bits \<Rightarrow> Inr (take (length data1 * 8 div 32) bits)))"

definition word :: "mnemonic \<Rightarrow> int \<Rightarrow> error + string" where
  "word self index = getitem (wordlist self) index"

text \<open>\<^verbatim>\<open>detect_language\<close>: the inner loop, the loop over the directory, the method.\<close>

primrec count_words :: "string list \<Rightarrow> string list \<Rightarrow> nat" where
  "count_words wl [] = 0"
| "count_words wl (w # ws) = (if w \<in> set wl then 1 else 0) + count_words wl ws"

definition language_of :: "string \<Rightarrow> string" where
  "language_of fn = takeWhile (\<lambda>c. c \<noteq> CHR ''.'') fn"

fun count_languages ::
  "(string \<times> string list) list \<Rightarrow> string list \<Rightarrow> (string \<times> nat) list \<Rightarrow> (string \<times> nat) list"
where
  "count_languages [] words wlcount = wlcount"
| "count_languages ((fn, wl) # files) words wlcount =
     (if endswith fn ''.txt''
      then count_languages files words (dict_set wlcount (language_of fn) (count_words wl words))
      else count_languages files words wlcount)"

definition detect_language :: "env \<Rightarrow> string \<Rightarrow> error + string" where
  "detect_language E words =
     (let ws = split_space (normalize_string E words);
          wlcount = count_languages (wordlist_dir E) ws []
      in case max_key wlcount of
           None \<Rightarrow> Inl EmptySequence
         | Some (detlang, n) \<Rightarrow> if n = 0 then Inl UnknownLanguage else Inr detlang)"

text \<open>\<^verbatim>\<open>sanitize_mnemonic\<close> (it never reads \<^verbatim>\<open>self\<close>).\<close>

definition sanitize_mnemonic :: "env \<Rightarrow> string \<Rightarrow> error + string" where
  "sanitize_mnemonic E words =
     (let words1 = normalize_string E words
      in case detect_language E words1 of
           Inl e \<Rightarrow> Inl e
         | Inr language \<Rightarrow>
             (let ws = split_space words1
              in case read_wordlist E language of
                   Inl e \<Rightarrow> Inl e
                 | Inr wl \<Rightarrow>
                     (case find (\<lambda>w. w \<notin> set wl) ws of
                        Some w \<Rightarrow> Inl (UnrecognisedWord w)
                      | None \<Rightarrow> Inr (join_space ws))))"

text \<open>\<^verbatim>\<open>to_seed\<close> (\<^verbatim>\<open>self\<close> is used for \<^verbatim>\<open>sanitize_mnemonic\<close> only).\<close>

definition to_seed :: "env \<Rightarrow> string \<Rightarrow> string \<Rightarrow> error + nat list" where
  "to_seed E words passphrase =
     (case sanitize_mnemonic E words of
        Inl e \<Rightarrow> Inl e
      | Inr ws \<Rightarrow>
          Inr (read (pbkdf2 E (normalize_string E ws) (''mnemonic'' @ passphrase) PBKDF2_ROUNDS)
                 64))"

text \<open>
  \<^verbatim>\<open>to_mnemonic\<close>. With a checksum, in the order Python evaluates: \<^verbatim>\<open>len(data)\<close> for
  the first call of \<^verbatim>\<open>change_base\<close>, the call, \<^verbatim>\<open>self.checksum(data)\<close> (on what
  \<^verbatim>\<open>to_bytes\<close> returned, which \<^verbatim>\<open>checksum\<close> passes to \<^verbatim>\<open>to_bytes\<close> again), the
  concatenation, the second call. Then the loop over the indices.
\<close>

definition to_mnemonic :: "env \<Rightarrow> mnemonic \<Rightarrow> pyval \<Rightarrow> bool \<Rightarrow> error + string" where
  "to_mnemonic E self data add_checksum =
     (let data1 = to_bytes E data
      in case (if add_checksum
               then (case seq_of data1 of
                       Inl e \<Rightarrow> Inl e
                     | Inr d \<Rightarrow>
                         (let bits = change_base E data1 256 2 (length d * 8) None
                          in case checksum E data1 of
                               Inl e \<Rightarrow> Inl e
                             | Inr cs \<Rightarrow>
                                 (case seq_of bits of
                                    Inl e \<Rightarrow> Inl e
                                  | Inr bs \<Rightarrow> Inr (change_base E (Seq (bs @ cs)) 2 2048 0 None))))
               else Inr (change_base E data1 256 2048 0 None)) of
           Inl e \<Rightarrow> Inl e
         | Inr wi \<Rightarrow>
             (case seq_of wi of
                Inl e \<Rightarrow> Inl e
              | Inr is \<Rightarrow>
                  (case traverse (\<lambda>i. getitem (wordlist self) (int i)) is of
                     Inl e \<Rightarrow> Inl e
                   | Inr ws \<Rightarrow> Inr (normalize_string E (join_space ws)))))"

definition generate :: "env \<Rightarrow> mnemonic \<Rightarrow> int \<Rightarrow> bool \<Rightarrow> error + string" where
  "generate E self strength add_checksum =
     (if strength mod 32 > 0 then Inl InvalidLength
      else if strength div 8 < 0 then Inl NegativeArgument
      else to_mnemonic E self (Seq (urandom E (nat (strength div 8)))) add_checksum)"

text \<open>
  \<^verbatim>\<open>to_entropy\<close>, in two parts: \<open>entropy_of_indices\<close> is the method from the first
  call of \<^verbatim>\<open>change_base\<close> on, once the loop has looked every word up. It returns what
  the last call of \<^verbatim>\<open>change_base\<close> returned.
\<close>

definition entropy_of_indices :: "env \<Rightarrow> nat list \<Rightarrow> bool \<Rightarrow> error + pyval" where
  "entropy_of_indices E wi includes_checksum =
     (let ent = change_base E (Seq wi) 2048 256 0 (Some False)
      in if includes_checksum
         then (case seq_of ent of
                 Inl e \<Rightarrow> Inl e
               | Inr bytes \<Rightarrow>
                   (case seq_of (change_base E ent 256 2 (length bytes * 4) None) of
                      Inl e \<Rightarrow> Inl e
                    | Inr binresult \<Rightarrow>
                        (let j = (- int (length binresult)) div 33;
                             ent1 = change_base E (Seq (slice_to binresult j)) 2 256 0 None;
                             cs = slice_from binresult j
                         in case checksum E ent1 of
                              Inl e \<Rightarrow> Inl e
                            | Inr cs1 \<Rightarrow>
                                if cs \<noteq> cs1 then Inl InvalidChecksum else Inr ent1)))
         else Inr ent)"

definition to_entropy :: "env \<Rightarrow> mnemonic \<Rightarrow> string \<Rightarrow> bool \<Rightarrow> error + pyval" where
  "to_entropy E self words includes_checksum =
     (case sanitize_mnemonic E words of
        Inl e \<Rightarrow> Inl e
      | Inr words1 \<Rightarrow>
          (case traverse (list_index (wordlist self)) (split_space words1) of
             Inl e \<Rightarrow> Inl e
           | Inr wi \<Rightarrow> entropy_of_indices E wi includes_checksum))"

subsection \<open>The registered word lists\<close>

text \<open>
  The files \<^verbatim>\<open>detect_language\<close> reads, the languages it names them by with their
  word lists, and a directory as it is meant to be: no two files of one name, and every
  file \<^verbatim>\<open>*.txt\<close> named \<^verbatim>\<open>language.txt\<close> with no other dot.
\<close>

definition wordlist_files :: "env \<Rightarrow> (string \<times> string list) list" where
  "wordlist_files E = filter (\<lambda>(fn, wl). endswith fn ''.txt'') (wordlist_dir E)"

definition registry :: "env \<Rightarrow> (string \<times> string list) list" where
  "registry E = map (\<lambda>(fn, wl). (language_of fn, wl)) (wordlist_files E)"

definition proper_dir :: "env \<Rightarrow> bool" where
  "proper_dir E \<longleftrightarrow>
     distinct (map fst (wordlist_dir E))
     \<and> (\<forall>(fn, wl)\<in>set (wordlist_files E). fn = language_of fn @ ''.txt'')"

subsection \<open>What a call of the base converter is expected to return\<close>

text \<open>
  \<open>rebases E chars base_from base_to min_length output_even n\<close>: this call of
  \<^verbatim>\<open>change_base\<close> returns the \<open>n\<close>-digit numeral, in \<open>base_to\<close>, of the number that
  \<open>chars\<close> denotes in \<open>base_from\<close>.
\<close>

definition rebases ::
  "env \<Rightarrow> nat list \<Rightarrow> nat \<Rightarrow> nat \<Rightarrow> nat \<Rightarrow> bool option \<Rightarrow> nat \<Rightarrow> bool"
where
  "rebases E chars base_from base_to min_length output_even n \<longleftrightarrow>
     change_base E (Seq chars) base_from base_to min_length output_even
       = Seq (to_base base_to n (from_base base_from chars))"

text \<open>
  What the spec says of the calls the codec makes. Encoding: the entropy becomes its bit
  string, eight bits a byte; the hash becomes its 256 bits; the bit string with the
  checksum becomes one index for every eleven bits. Decoding: the two calls that take
  the indices to bytes and the bytes to bits give eleven bits for every index, and the
  call on the entropy bits gives one byte for every eight bits.
\<close>

definition bits_of :: "nat list \<Rightarrow> nat list" where
  "bits_of data = to_base 2 (length data * 8) (from_base 256 data)"

definition hash_bits :: "env \<Rightarrow> nat list \<Rightarrow> nat list" where
  "hash_bits E data =
     take (length data * 8 div 32) (to_base 2 256 (from_base 256 (sha256 E data)))"

definition indices_of :: "env \<Rightarrow> nat list \<Rightarrow> nat list" where
  "indices_of E data =
     to_base 2048 (length (bits_of data @ hash_bits E data) div 11)
       (from_base 2 (bits_of data @ hash_bits E data))"

definition encodes :: "env \<Rightarrow> nat list \<Rightarrow> bool" where
  "encodes E data \<longleftrightarrow>
     rebases E data 256 2 (length data * 8) None (length data * 8)
     \<and> rebases E (sha256 E data) 256 2 256 None 256
     \<and> rebases E (bits_of data @ hash_bits E data) 2 2048 0 None
         (length (bits_of data @ hash_bits E data) div 11)"

definition decodes :: "env \<Rightarrow> nat list \<Rightarrow> bool" where
  "decodes E wi \<longleftrightarrow>
     (\<exists>ent. change_base E (Seq wi) 2048 256 0 (Some False) = Seq ent
          \<and> from_base 256 ent = from_base 2048 wi
          \<and> rebases E ent 256 2 (length ent * 4) None (11 * length wi))"

definition packs :: "env \<Rightarrow> nat list \<Rightarrow> bool" where
  "packs E bits \<longleftrightarrow> rebases E bits 2 256 0 None (length bits div 8)"

text \<open>
  A word list in normal form: \<^verbatim>\<open>normalize_string\<close> leaves every sentence of its words
  as it is. No word holds a space.
\<close>

definition normal_words :: "env \<Rightarrow> string list \<Rightarrow> bool" where
  "normal_words E wl \<longleftrightarrow>
     (\<forall>ws. set ws \<subseteq> set wl \<longrightarrow> normalize_string E (join_space ws) = join_space ws)"

definition spaceless :: "string list \<Rightarrow> bool" where
  "spaceless wl \<longleftrightarrow> (\<forall>w\<in>set wl. CHR '' '' \<notin> set w)"

subsection \<open>An environment for the examples\<close>

text \<open>
  Modelled from the spec: \<^verbatim>\<open>change_base\<close> of \<^verbatim>\<open>bitcoinlib.encoding\<close>, which is not
  among the sources. The spec calls it arbitrary-base big-number re-basing: the digits
  are read as a number in \<open>base_from\<close>, the number is written in \<open>base_to\<close>, and the
  numeral is filled with zeros at the front up to \<open>min_length\<close>. The spec does not
  mention \<open>output_even\<close>, which is ignored.
\<close>

function min_digits :: "nat \<Rightarrow> nat \<Rightarrow> nat list" where
  "min_digits b v = (if b < 2 \<or> v = 0 then [] else min_digits b (v div b) @ [v mod b])"
  by pat_completeness auto
termination
  by (relation "measure snd") auto

declare min_digits.simps [simp del]

definition rebase :: "pyval \<Rightarrow> nat \<Rightarrow> nat \<Rightarrow> nat \<Rightarrow> bool option \<Rightarrow> pyval" where
  "rebase chars base_from base_to min_length output_even =
     (let v = (case chars of Seq cs \<Rightarrow> from_base base_from cs | Num n \<Rightarrow> n);
          ds = min_digits base_to v
      in Seq (replicate (min_length - length ds) 0 @ ds))"

text \<open>
  Modelled from the spec: \<^verbatim>\<open>to_bytes\<close> of \<^verbatim>\<open>bitcoinlib.encoding\<close>, which is not among
  the sources. The spec takes the data as bytes; the methods that call \<^verbatim>\<open>to_bytes\<close>
  document their data as bytes or hexstring, and the example at the end of the module
  passes hex digits. A sequence of hex digits, two for every byte, is read as the bytes
  it spells; every other value is returned as it is.
\<close>

definition hex_digit :: "nat \<Rightarrow> nat option" where
  "hex_digit c =
     (if 48 \<le> c \<and> c \<le> 57 then Some (c - 48)
      else if 97 \<le> c \<and> c \<le> 102 then Some (c - 87)
      else if 65 \<le> c \<and> c \<le> 70 then Some (c - 55)
      else None)"

fun unhexlify :: "nat list \<Rightarrow> nat list option" where
  "unhexlify [] = Some []"
| "unhexlify [c] = None"
| "unhexlify (c # d # cs) =
     (case hex_digit c of
        None \<Rightarrow> None
      | Some x \<Rightarrow>
          (case hex_digit d of
             None \<Rightarrow> None
           | Some y \<Rightarrow> map_option ((#) (16 * x + y)) (unhexlify cs)))"

definition hex_to_bytes :: "pyval \<Rightarrow> pyval" where
  "hex_to_bytes v =
     (case v of
        Num n \<Rightarrow> Num n
      | Seq cs \<Rightarrow> (case unhexlify cs of None \<Rightarrow> Seq cs | Some bs \<Rightarrow> Seq bs))"

text \<open>
  Stand-ins for the library functions: a 32-byte digest, a key stream and a source of
  bytes. The theorems hold for every environment; the examples need one to run in.
\<close>

definition digest :: "nat list \<Rightarrow> nat list" where
  "digest data =
     to_base 256 32
       ((from_base 256 (1 # data) + length data)
          * 71569258374982033459804797080701164903827507898943861170691632017806254739093)"

definition keystream :: "string \<Rightarrow> string \<Rightarrow> nat \<Rightarrow> nat \<Rightarrow> nat" where
  "keystream password salt iterations i =
     (length password * 31 + length salt * 7 + iterations + i) mod 256"

definition some_bytes :: "nat \<Rightarrow> nat list" where
  "some_bytes n =
     to_base 256 n
       (71569258374982033459804797080701164903827507898943861170691632017806254739093 ^ 4)"

text \<open>
  Two word lists of 2048 unique words each: the numerals \<open>aaa\<close>, \<open>aab\<close>, ... of the
  positions in base 26, in small letters for one language and in capitals for the other.
\<close>

definition word_no :: "string \<Rightarrow> nat \<Rightarrow> string" where
  "word_no alphabet n = map (\<lambda>d. alphabet ! d) (to_base 26 3 n)"

definition small_letters :: string where
  "small_letters = ''abcdefghijklmnopqrstuvwxyz''"

definition capital_letters :: string where
  "capital_letters = ''ABCDEFGHIJKLMNOPQRSTUVWXYZ''"

definition small_words :: "string list" where
  "small_words = map (word_no small_letters) [0..<2048]"

definition capital_words :: "string list" where
  "capital_words = map (word_no capital_letters) [0..<2048]"

text \<open>The position of a word in such a list, read back from its letters.\<close>

definition word_pos :: "string \<Rightarrow> string \<Rightarrow> nat option" where
  "word_pos alphabet w =
     (case those (map (first_index alphabet) w) of
        None \<Rightarrow> None
      | Some ds \<Rightarrow>
          if length ds = 3 \<and> from_base 26 ds < 2048 then Some (from_base 26 ds) else None)"

definition example_env :: env where
  "example_env =
     \<lparr>change_base = rebase,
      to_bytes = hex_to_bytes,
      normalize_string = (\<lambda>s. s),
      sha256 = digest,
      pbkdf2 = keystream,
      urandom = some_bytes,
      wordlist_dir = [(''small.txt'', small_words), (''README'', []),
                      (''capital.txt'', capital_words)]\<rparr>"

definition small :: mnemonic where
  "small = \<lparr>wordlist = small_words\<rparr>"

definition capital :: mnemonic where
  "capital = \<lparr>wordlist = capital_words\<rparr>"

section \<open>Lemmas\<close>

subsection \<open>Digits\<close>

lemma to_base_numeral:
  "to_base b (numeral k) v = to_base b (pred_numeral k) (v div b) @ [v mod b]"
  by (simp add: numeral_eq_Suc)

lemma length_to_base [simp]: "length (to_base b n v) = n"
  by (induction n arbitrary: v) auto

lemma to_base_less: "0 < b \<Longrightarrow> d \<in> set (to_base b n v) \<Longrightarrow> d < b"
  by (induction n arbitrary: v) auto

lemma from_base_Nil [simp]: "from_base b [] = 0"
  by (simp add: from_base_def)

lemma from_base_snoc [simp]: "from_base b (ds @ [d]) = from_base b ds * b + d"
  by (simp add: from_base_def)

lemma from_base_Cons: "from_base b (d # ds) = d * b ^ length ds + from_base b ds"
proof (induction ds rule: rev_induct)
  case Nil
  show ?case by (simp add: from_base_def)
next
  case (snoc x xs)
  have "from_base b (d # xs @ [x]) = from_base b ((d # xs) @ [x])" by simp
  also have "\<dots> = from_base b (d # xs) * b + x" by (rule from_base_snoc)
  finally show ?case using snoc by (simp add: algebra_simps)
qed

lemma from_base_append:
  "from_base b (xs @ ys) = from_base b xs * b ^ length ys + from_base b ys"
proof (induction ys rule: rev_induct)
  case Nil
  show ?case by simp
next
  case (snoc y ys)
  have "from_base b (xs @ ys @ [y]) = from_base b ((xs @ ys) @ [y])" by simp
  also have "\<dots> = from_base b (xs @ ys) * b + y" by (rule from_base_snoc)
  finally show ?case using snoc by (simp add: algebra_simps)
qed

lemma from_base_to_base: "0 < b \<Longrightarrow> from_base b (to_base b n v) = v mod b ^ n"
proof (induction n arbitrary: v)
  case 0
  show ?case by simp
next
  case (Suc n)
  have "v mod (b * b ^ n) = v mod b + b * (v div b mod b ^ n)"
    by (simp add: mod_mult2_eq)
  with Suc show ?case by (simp add: mult.commute)
qed

lemma from_base_less:
  "\<forall>d\<in>set ds. d < b \<Longrightarrow> from_base b ds < b ^ length ds"
proof (induction ds rule: rev_induct)
  case Nil
  show ?case by simp
next
  case (snoc d ds)
  then have less: "from_base b ds < b ^ length ds" and "d < b" by simp_all
  then have "from_base b ds * b + d < (from_base b ds + 1) * b" by simp
  also have "\<dots> \<le> b ^ length ds * b"
    using less by (intro mult_le_mono1) simp
  finally show ?case by (simp add: mult.commute)
qed

lemma to_base_from_base:
  "\<forall>d\<in>set ds. d < b \<Longrightarrow> to_base b (length ds) (from_base b ds) = ds"
proof (induction ds rule: rev_induct)
  case Nil
  show ?case by simp
next
  case (snoc d ds)
  then have "d < b" and "to_base b (length ds) (from_base b ds) = ds" by simp_all
  then show ?case by simp
qed

lemma to_base_add:
  "to_base b (m + n) v = to_base b m (v div b ^ n) @ to_base b n v"
proof (induction n arbitrary: v)
  case 0
  show ?case by simp
next
  case (Suc n)
  have "to_base b (m + Suc n) v = to_base b (m + n) (v div b) @ [v mod b]" by simp
  also have "\<dots> = to_base b m (v div b div b ^ n) @ to_base b n (v div b) @ [v mod b]"
    by (simp add: Suc)
  also have "v div b div b ^ n = v div b ^ Suc n"
    by (simp add: div_mult2_eq)
  finally show ?case by simp
qed

lemma to_base_zero: "to_base b n 0 = replicate n 0"
  by (induction n) (simp_all add: replicate_append_same)

lemma take_to_base: "m \<le> n \<Longrightarrow> take m (to_base b n v) = to_base b m (v div b ^ (n - m))"
  using to_base_add [of b m "n - m" v] by simp

lemma drop_to_base: "m \<le> n \<Longrightarrow> drop m (to_base b n v) = to_base b (n - m) v"
  using to_base_add [of b m "n - m" v] by simp

subsection \<open>Lists, strings and dictionaries\<close>

lemma first_index_None: "first_index xs w = None \<longleftrightarrow> w \<notin> set xs"
  by (induction xs) auto

lemma first_index_Some: "first_index xs w = Some i \<Longrightarrow> i < length xs \<and> xs ! i = w"
  by (induction xs arbitrary: i) (auto split: if_splits)

lemma first_index_nth: "distinct xs \<Longrightarrow> i < length xs \<Longrightarrow> first_index xs (xs ! i) = Some i"
proof (induction xs arbitrary: i)
  case Nil
  then show ?case by simp
next
  case (Cons x xs)
  then show ?case by (cases i) auto
qed

lemma join_split [simp]: "join_space (split_space s) = s"
proof (induction s)
  case Nil
  show ?case by simp
next
  case (Cons c s)
  then show ?case
    by (cases "split_space s"; cases "tl (split_space s)") (auto split: list.splits)
qed

lemma split_space_not_Nil [simp]: "split_space s \<noteq> []"
  by (cases s) (auto split: list.splits)

lemma split_no_space: "CHR '' '' \<notin> set w \<Longrightarrow> split_space w = [w]"
  by (induction w) auto

lemma split_append:
  "CHR '' '' \<notin> set w \<Longrightarrow> split_space (w @ CHR '' '' # s) = w # split_space s"
  by (induction w) auto

lemma split_join:
  "ws \<noteq> [] \<Longrightarrow> \<forall>w\<in>set ws. CHR '' '' \<notin> set w \<Longrightarrow> split_space (join_space ws) = ws"
proof (induction ws rule: join_space.induct)
  case 1
  then show ?case by simp
next
  case (2 w)
  then show ?case by (simp add: split_no_space)
next
  case (3 w v ws)
  then show ?case by (simp add: split_append)
qed

lemma count_words_filter: "count_words wl ws = length (filter (\<lambda>w. w \<in> set wl) ws)"
  by (induction ws) auto

lemma dict_set_fresh: "k \<notin> fst ` set d \<Longrightarrow> dict_set d k v = d @ [(k, v)]"
  by (induction d) auto

lemma max_key_Some:
  "d \<noteq> [] \<Longrightarrow> \<exists>k v. max_key d = Some (k, v) \<and> (k, v) \<in> set d \<and> (\<forall>(k', v')\<in>set d. v' \<le> v)"
proof (induction d)
  case Nil
  then show ?case by simp
next
  case (Cons p d)
  obtain k v where p: "p = (k, v)" by (cases p)
  show ?case
  proof (cases "d = []")
    case True
    with p show ?thesis by simp
  next
    case False
    from Cons.IH [OF this] obtain k' v' where
      "max_key d = Some (k', v')" "(k', v') \<in> set d" "\<forall>(a, b)\<in>set d. b \<le> v'"
      by blast
    with p show ?thesis by (cases "v < v'") fastforce+
  qed
qed

lemma count_languages_distinct:
  assumes "distinct (map (language_of \<circ> fst) (filter (\<lambda>(fn, wl). endswith fn ''.txt'') files))"
    and "\<forall>(fn, wl)\<in>set files. endswith fn ''.txt'' \<longrightarrow> language_of fn \<notin> fst ` set acc"
  shows "count_languages files ws acc
       = acc @ map (\<lambda>(fn, wl). (language_of fn, count_words wl ws))
                 (filter (\<lambda>(fn, wl). endswith fn ''.txt'') files)"
  using assms
proof (induction files ws acc rule: count_languages.induct)
  case (1 words wlcount)
  show ?case by simp
next
  case (2 fn wl files words wlcount)
  show ?case
  proof (cases "endswith fn ''.txt''")
    case False
    with 2 show ?thesis by simp
  next
    case True
    with "2.prems" have fresh: "language_of fn \<notin> fst ` set wlcount" by simp
    have "count_languages files words (dict_set wlcount (language_of fn) (count_words wl words))
        = dict_set wlcount (language_of fn) (count_words wl words)
          @ map (\<lambda>(fn, wl). (language_of fn, count_words wl words))
              (filter (\<lambda>(fn, wl). endswith fn ''.txt'') files)"
    proof (rule "2.IH"(1) [OF True])
      show "distinct (map (language_of \<circ> fst) (filter (\<lambda>(fn, wl). endswith fn ''.txt'') files))"
        using "2.prems"(1) True by (simp add: comp_def)
      show "\<forall>(fn', wl')\<in>set files. endswith fn' ''.txt'' \<longrightarrow>
              language_of fn' \<notin> fst ` set (dict_set wlcount (language_of fn) (count_words wl words))"
        using "2.prems" True by (fastforce simp: dict_set_fresh [OF fresh] image_iff)
    qed
    with True show ?thesis by (simp add: dict_set_fresh [OF fresh])
  qed
qed

lemma count_languages_registry:
  assumes "proper_dir E"
  shows "count_languages (wordlist_dir E) ws []
       = map (\<lambda>(l, wl). (l, count_words wl ws)) (registry E)"
proof -
  let ?files = "wordlist_files E"
  have d: "distinct (map fst ?files)"
    using assms unfolding proper_dir_def wordlist_files_def by (simp add: distinct_map_filter)
  then have "distinct ?files" and "inj_on fst (set ?files)"
    by (simp_all add: distinct_map)
  moreover have "inj_on (language_of \<circ> fst) (set ?files)"
  proof (rule inj_onI)
    fix x y
    assume x: "x \<in> set ?files" and y: "y \<in> set ?files"
      and eq: "(language_of \<circ> fst) x = (language_of \<circ> fst) y"
    from assms x y have "fst x = language_of (fst x) @ ''.txt''"
      and "fst y = language_of (fst y) @ ''.txt''"
      unfolding proper_dir_def by fastforce+
    with eq have "fst x = fst y" by simp
    with \<open>inj_on fst (set ?files)\<close> x y show "x = y" by (simp add: inj_on_def)
  qed
  ultimately have "distinct (map (language_of \<circ> fst) ?files)"
    by (simp add: distinct_map)
  then have "count_languages (wordlist_dir E) ws []
      = [] @ map (\<lambda>(fn, wl). (language_of fn, count_words wl ws)) ?files"
    unfolding wordlist_files_def by (intro count_languages_distinct) simp_all
  then show ?thesis
    by (simp add: registry_def case_prod_unfold comp_def)
qed

lemma read_wordlist_registry:
  assumes "proper_dir E" and "(l, wl) \<in> set (registry E)"
  shows "read_wordlist E l = Inr wl"
proof -
  from assms(2) obtain fn where fn: "(fn, wl) \<in> set (wordlist_files E)" and l: "l = language_of fn"
    unfolding registry_def by auto
  with assms(1) have "fn = l @ ''.txt''" unfolding proper_dir_def by fastforce
  moreover from fn have "(fn, wl) \<in> set (wordlist_dir E)"
    unfolding wordlist_files_def by simp
  moreover from assms(1) have "distinct (map fst (wordlist_dir E))"
    unfolding proper_dir_def by simp
  ultimately have "map_of (wordlist_dir E) (l @ ''.txt'') = Some wl" by simp
  then show ?thesis by (simp add: read_wordlist_def)
qed

lemma detect_language_cases:
  fixes E :: env and S :: string
  assumes "proper_dir E" and "registry E \<noteq> []"
  defines "ws \<equiv> split_space (normalize_string E S)"
  shows "\<exists>l wl. (l, wl) \<in> set (registry E)
           \<and> (\<forall>(l', wl')\<in>set (registry E). count_words wl' ws \<le> count_words wl ws)
           \<and> detect_language E S
               = (if count_words wl ws = 0 then Inl UnknownLanguage else Inr l)"
proof -
  let ?counts = "map (\<lambda>(l, wl). (l, count_words wl ws)) (registry E)"
  from assms(2) have "?counts \<noteq> []" by simp
  from max_key_Some [OF this] obtain k v where
    m: "max_key ?counts = Some (k, v)" and k: "(k, v) \<in> set ?counts"
    and v: "\<forall>(k', v')\<in>set ?counts. v' \<le> v"
    by blast
  from k obtain wl where wl: "(k, wl) \<in> set (registry E)" and "v = count_words wl ws"
    by auto
  moreover from v have "\<forall>(l', wl')\<in>set (registry E). count_words wl' ws \<le> v" by fastforce
  moreover have "detect_language E S = (if v = 0 then Inl UnknownLanguage else Inr k)"
    using m by (simp add: detect_language_def count_languages_registry [OF assms(1)] ws_def)
  ultimately show ?thesis by blast
qed

subsection \<open>Slices\<close>

lemma slice_bound_33:
  "length xs = 33 * k \<Longrightarrow> slice_bound xs ((- int (length xs)) div 33) = 32 * k"
  by (cases "k = 0") (auto simp: slice_bound_def)

lemma slice_bound_ceiling:
  "slice_bound xs ((- int (length xs)) div 33) = length xs - (length xs + 32) div 33"
proof (cases "length xs = 0")
  case True
  then show ?thesis by (simp add: slice_bound_def)
next
  case False
  have "(- int (length xs)) div 33 = - int ((length xs + 32) div 33)" by linarith
  moreover have "(length xs + 32) div 33 \<le> length xs" using False by linarith
  moreover have "0 < (length xs + 32) div 33" using False by linarith
  ultimately show ?thesis by (simp add: slice_bound_def nat_diff_distrib')
qed

subsection \<open>The loops over words and indices\<close>

lemma traverse_getitem:
  "\<forall>i\<in>set wi. i < length wl \<Longrightarrow>
     traverse (\<lambda>i. getitem wl (int i)) wi = Inr (map (\<lambda>i. wl ! i) wi)"
  by (induction wi) (auto simp: getitem_def)

lemma traverse_list_index:
  "distinct wl \<Longrightarrow> \<forall>i\<in>set wi. i < length wl \<Longrightarrow>
     traverse (list_index wl) (map (\<lambda>i. wl ! i) wi) = Inr wi"
  by (induction wi) (auto simp: list_index_def first_index_nth)

lemma traverse_list_index_find:
  "traverse (list_index wl) ws =
     (case find (\<lambda>w. w \<notin> set wl) ws of
        Some w \<Rightarrow> Inl (NotInList w)
      | None \<Rightarrow> Inr (map (\<lambda>w. the (first_index wl w)) ws))"
proof (induction ws)
  case Nil
  show ?case by simp
next
  case (Cons v ws)
  show ?case
  proof (cases "first_index wl v")
    case None
    then have "list_index wl v = Inl (NotInList v)" by (simp add: list_index_def)
    moreover from None have "v \<notin> set wl" by (simp add: first_index_None)
    ultimately show ?thesis by simp
  next
    case (Some i)
    then have "list_index wl v = Inr i" by (simp add: list_index_def)
    moreover from Some have "v \<in> set wl" by (metis first_index_None option.distinct(1))
    ultimately show ?thesis using Some Cons.IH by (simp split: option.splits)
  qed
qed
subsection \<open>The environment of the examples\<close>

lemma example_simps:
  "change_base example_env = rebase"
  "to_bytes example_env = hex_to_bytes"
  "normalize_string example_env = (\<lambda>s. s)"
  "sha256 example_env = digest"
  "pbkdf2 example_env = keystream"
  "urandom example_env = some_bytes"
  by (simp_all add: example_env_def)

lemma length_some_bytes [simp]: "length (some_bytes n) = n"
  by (simp add: some_bytes_def)

lemma length_small_words [simp]: "length small_words = 2048"
  by (simp add: small_words_def)

lemma length_capital_words [simp]: "length capital_words = 2048"
  by (simp add: capital_words_def)

lemma nth_small_words: "i < 2048 \<Longrightarrow> small_words ! i = word_no small_letters i"
  by (simp add: small_words_def)

lemma nth_capital_words: "i < 2048 \<Longrightarrow> capital_words ! i = word_no capital_letters i"
  by (simp add: capital_words_def)

lemma to_base_min_digits:
  "2 \<le> b \<Longrightarrow> v < b ^ n \<Longrightarrow>
     length (min_digits b v) \<le> n
     \<and> to_base b n v = replicate (n - length (min_digits b v)) 0 @ min_digits b v"
proof (induction n arbitrary: v)
  case 0
  then show ?case by (simp add: min_digits.simps)
next
  case (Suc n)
  show ?case
  proof (cases "v = 0")
    case True
    then show ?thesis by (simp add: min_digits.simps to_base_zero)
  next
    case False
    from Suc.prems have "v div b < b ^ n"
      by (simp add: less_mult_imp_div_less mult.commute)
    from Suc.IH [OF Suc.prems(1) this] False Suc.prems(1)
    show ?thesis
      by (subst (1 2 3) min_digits.simps) (simp add: Suc_diff_le)
  qed
qed

lemma length_min_digits_ge:
  "2 \<le> b \<Longrightarrow> b ^ n \<le> v \<Longrightarrow> n < length (min_digits b v)"
proof (induction n arbitrary: v)
  case 0
  then show ?case by (subst min_digits.simps) simp
next
  case (Suc n)
  from Suc.prems(1) have "0 < b ^ Suc n" by simp
  with Suc.prems(2) have "v \<noteq> 0" by linarith
  from Suc.prems(1) have "b ^ n = b * b ^ n div b" by simp
  also from Suc.prems(2) have "\<dots> \<le> v div b" by (intro div_le_mono) simp
  finally have "b ^ n \<le> v div b" .
  from Suc.IH [OF Suc.prems(1) this] \<open>v \<noteq> 0\<close> Suc.prems(1)
  show ?case by (subst min_digits.simps) simp
qed

text \<open>When the converter of the examples returns the numeral of a given width.\<close>

lemma rebase_padded:
  assumes "2 \<le> base_to" and "from_base base_from chars < base_to ^ n"
  shows "rebase (Seq chars) base_from base_to n output_even
           = Seq (to_base base_to n (from_base base_from chars))"
  using to_base_min_digits [OF assms] by (simp add: rebase_def Let_def)

lemma rebase_exact:
  assumes "2 \<le> base_to" and "from_base base_from chars < base_to ^ Suc n"
    and "base_to ^ n \<le> from_base base_from chars" and "min_length \<le> Suc n"
  shows "rebase (Seq chars) base_from base_to min_length output_even
           = Seq (to_base base_to (Suc n) (from_base base_from chars))"
proof -
  have "length (min_digits base_to (from_base base_from chars)) = Suc n"
    using to_base_min_digits [OF assms(1,2)] length_min_digits_ge [OF assms(1,3)] by simp
  with to_base_min_digits [OF assms(1,2)] assms(4) show ?thesis
    by (simp add: rebase_def Let_def)
qed

lemma digest_less: "from_base 256 (digest data) < 2 ^ 256"
proof -
  have "from_base 256 (digest data) < 256 ^ 32"
    unfolding digest_def by (simp add: from_base_to_base)
  then show ?thesis by simp
qed

lemma rebases_digest: "rebases example_env (sha256 example_env data) 256 2 256 None 256"
  unfolding rebases_def example_simps by (rule rebase_padded) (simp, rule digest_less)
text \<open>What the reader of hex digits of the examples does to bytes.\<close>

lemma hex_to_bytes_high:
  assumes "data \<noteq> []" and "128 \<le> hd data"
  shows "hex_to_bytes (Seq data) = Seq data"
proof -
  from assms obtain a rest where data: "data = a # rest" and a: "128 \<le> a"
    by (cases data) auto
  from a have "hex_digit a = None" by (simp add: hex_digit_def)
  then have "unhexlify data = None" unfolding data by (cases rest) simp_all
  then show ?thesis by (simp add: hex_to_bytes_def)
qed

lemma hex_to_bytes_zeros:
  "hex_to_bytes (Seq [48, 48, 48, 48]) = Seq [0, 0]"
  "hex_to_bytes (Seq [0, 0]) = Seq [0, 0]"
  by (simp_all add: hex_to_bytes_def hex_digit_def)
subsection \<open>The word lists of the examples\<close>

lemma those_map_Some:
  "those (map f xs) = Some ys \<longleftrightarrow> map f xs = map Some ys"
proof (induction xs arbitrary: ys)
  case Nil
  show ?case by auto
next
  case (Cons x xs)
  show ?case
  proof (cases "f x")
    case None
    then show ?thesis by auto
  next
    case (Some a)
    have "those (map f (x # xs)) = Some ys
        \<longleftrightarrow> (\<exists>zs. those (map f xs) = Some zs \<and> ys = a # zs)"
      using Some by (auto split: option.splits)
    also have "\<dots> \<longleftrightarrow> (\<exists>zs. map f xs = map Some zs \<and> ys = a # zs)"
      by (simp add: Cons.IH)
    also have "\<dots> \<longleftrightarrow> map f (x # xs) = map Some ys"
      using Some by (cases ys) auto
    finally show ?thesis .
  qed
qed

lemma word_pos_word_no:
  assumes "distinct alphabet" and "length alphabet = 26" and "i < 2048"
  shows "word_pos alphabet (word_no alphabet i) = Some i"
proof -
  let ?ds = "to_base 26 3 i"
  have "map (first_index alphabet) (word_no alphabet i) = map Some ?ds"
    using assms(1,2) to_base_less [of 26 _ 3 i]
    by (simp add: word_no_def first_index_nth)
  then have "those (map (first_index alphabet) (word_no alphabet i)) = Some ?ds"
    by (simp add: those_map_Some)
  moreover have "from_base 26 ?ds = i"
    using assms(3) by (simp add: from_base_to_base)
  ultimately show ?thesis using assms(3) by (simp add: word_pos_def)
qed

lemma word_pos_Some:
  assumes "word_pos alphabet w = Some i"
  shows "i < 2048 \<and> (length alphabet = 26 \<longrightarrow> word_no alphabet i = w)"
proof -
  from assms obtain ds where
    ds: "those (map (first_index alphabet) w) = Some ds"
    and len: "length ds = 3" and i: "i = from_base 26 ds" "i < 2048"
    by (auto simp: word_pos_def split: option.splits if_splits)
  from ds have m: "map (first_index alphabet) w = map Some ds" by (simp add: those_map_Some)
  then have lw: "length w = length ds" by (metis length_map)
  have nth: "first_index alphabet (w ! k) = Some (ds ! k)" if "k < length ds" for k
    using that m lw by (metis nth_map)
  have "word_no alphabet i = w" if "length alphabet = 26"
  proof -
    have "\<forall>d\<in>set ds. d < 26"
    proof
      fix d assume "d \<in> set ds"
      then obtain k where "k < length ds" "ds ! k = d" by (auto simp: in_set_conv_nth)
      with nth [of k] that show "d < 26" by (auto dest: first_index_Some)
    qed
    then have "to_base 26 3 i = ds"
      using to_base_from_base [of ds 26] len i by simp
    moreover have "map (\<lambda>d. alphabet ! d) ds = w"
      using lw nth by (auto simp: list_eq_iff_nth_eq dest: first_index_Some)
    ultimately show ?thesis by (simp add: word_no_def)
  qed
  with i show ?thesis by simp
qed

lemma first_index_words:
  assumes "distinct alphabet" and "length alphabet = 26"
  shows "first_index (map (word_no alphabet) [0..<2048]) w = word_pos alphabet w"
proof (cases "word_pos alphabet w")
  case None
  have "w \<notin> set (map (word_no alphabet) [0..<2048])"
    using None word_pos_word_no [OF assms] by auto
  with None show ?thesis by (simp add: first_index_None)
next
  case (Some i)
  let ?words = "map (word_no alphabet) [0..<2048]"
  from word_pos_Some [OF Some] assms(2) have i: "i < 2048" and w: "word_no alphabet i = w"
    by simp_all
  have "inj_on (word_no alphabet) {0..<2048}"
    by (rule inj_on_inverseI [where g = "\<lambda>w. the (word_pos alphabet w)"])
       (simp add: word_pos_word_no [OF assms])
  then have "distinct ?words" by (simp add: distinct_map)
  from first_index_nth [OF this, of i] i w Some show ?thesis by simp
qed

lemma distinct_small_letters: "distinct small_letters" "length small_letters = 26"
  by (simp_all add: small_letters_def)

lemma distinct_capital_letters: "distinct capital_letters" "length capital_letters = 26"
  by (simp_all add: capital_letters_def)

lemma first_index_small_words: "first_index small_words w = word_pos small_letters w"
  unfolding small_words_def by (rule first_index_words [OF distinct_small_letters])

lemma first_index_capital_words: "first_index capital_words w = word_pos capital_letters w"
  unfolding capital_words_def by (rule first_index_words [OF distinct_capital_letters])

lemma in_small_words: "w \<in> set small_words \<longleftrightarrow> word_pos small_letters w \<noteq> None"
  using first_index_None [of small_words w] by (simp add: first_index_small_words)

lemma in_capital_words: "w \<in> set capital_words \<longleftrightarrow> word_pos capital_letters w \<noteq> None"
  using first_index_None [of capital_words w] by (simp add: first_index_capital_words)

lemma proper_example_env: "proper_dir example_env"
  by (simp add: proper_dir_def wordlist_files_def example_env_def endswith_def language_of_def)

lemma registry_example_env:
  "registry example_env = [(''small'', small_words), (''capital'', capital_words)]"
  by (simp add: registry_def wordlist_files_def example_env_def endswith_def language_of_def)

lemmas word_pos_simps =
  in_small_words in_capital_words first_index_small_words first_index_capital_words
  word_pos_def small_letters_def capital_letters_def from_base_Cons

lemma wordlist_dir_example:
  "wordlist_dir example_env
     = [(''small.txt'', small_words), (''README'', []), (''capital.txt'', capital_words)]"
  by (simp add: example_env_def)

lemma read_wordlist_example:
  "read_wordlist example_env ''small'' = Inr small_words"
  "read_wordlist example_env ''capital'' = Inr capital_words"
  by (simp_all add: read_wordlist_def wordlist_dir_example)

lemmas detect_simps =
  detect_language_def wordlist_dir_example endswith_def language_of_def example_simps
  word_pos_simps

lemma sanitize_example: "sanitize_mnemonic example_env ''aab dat'' = Inr ''aab dat''"
  by (simp add: sanitize_mnemonic_def detect_simps read_wordlist_example)

lemma sanitize_capital_example:
  "sanitize_mnemonic example_env ''BNK AAA AAD'' = Inr ''BNK AAA AAD''"
  by (simp add: sanitize_mnemonic_def detect_simps read_wordlist_example)
subsection \<open>Which exceptions the encoder raises\<close>

lemma seq_of_simps [simp]:
  "seq_of (Seq ds) = Inr ds"
  "seq_of (Num n) = Inl TypeError"
  by (simp_all add: seq_of_def)

lemma seq_of_error: "seq_of v = Inl e \<Longrightarrow> e = TypeError"
  by (cases v) auto

lemma seq_of_Inr: "seq_of v = Inr ds \<longleftrightarrow> v = Seq ds"
  by (cases v) auto

lemma traverse_getitem_error:
  "traverse (\<lambda>i. getitem wl (int i)) wi = Inl e \<Longrightarrow> e = IndexError"
  by (induction wi) (auto simp: getitem_def split: if_splits sum.splits)

lemma checksum_error:
  assumes "checksum E data = Inl e"
  shows "e = TypeError \<or> (e = InvalidLength \<and> (\<exists>d. to_bytes E data = Seq d \<and> 0 < length d mod 4))"
proof (cases "to_bytes E data")
  case (Num n)
  with assms show ?thesis by (simp add: checksum_def)
next
  case (Seq d)
  with assms show ?thesis
    by (auto simp: checksum_def split: if_splits sum.splits dest: seq_of_error)
qed

lemma to_mnemonic_error:
  assumes "to_mnemonic E self data c = Inl e"
  shows "e = IndexError \<or> e = TypeError
       \<or> (e = InvalidLength \<and> c
            \<and> (\<exists>d d'. to_bytes E data = Seq d \<and> to_bytes E (Seq d) = Seq d' \<and> 0 < length d' mod 4))"
proof (cases "to_bytes E data")
  case (Num n)
  with assms show ?thesis
    by (auto simp: to_mnemonic_def Let_def split: if_splits sum.splits
             dest: seq_of_error traverse_getitem_error)
next
  case (Seq d)
  with assms show ?thesis
    by (auto simp: to_mnemonic_def Let_def split: if_splits sum.splits
             dest!: seq_of_error traverse_getitem_error checksum_error)
qed
section \<open>The word lookup\<close>

text \<open>
  Claim C10. On a word list of 2048 entries, \<open>word index\<close> returns the entry at position
  \<open>index\<close> for \<open>0 \<le> index < 2048\<close>, raises the out-of-range error for every
  \<open>index \<ge> 2048\<close>, and for \<open>-2048 \<le> index < 0\<close> returns the entry counted from the end
  of the list (position \<open>2048 + index\<close>) instead of failing.
\<close>

theorem word_index:
  assumes "length (wordlist self) = 2048"
  shows "(0 \<le> i \<and> i < 2048 \<longrightarrow> word self i = Inr (wordlist self ! nat i))
       \<and> (2048 \<le> i \<longrightarrow> word self i = Inl IndexError)
       \<and> (- 2048 \<le> i \<and> i < 0 \<longrightarrow> word self i = Inr (wordlist self ! nat (2048 + i)))"
  using assms by (simp add: word_def getitem_def)

theorem word_index_witness:
  "length (wordlist small) = 2048
   \<and> word small 5 = Inr ''aaf''
   \<and> word small 2048 = Inl IndexError
   \<and> word small (- 1) = Inr ''dat''"
  using word_index [of small 5] word_index [of small 2048] word_index [of small "- 1"]
  by (simp add: small_def nth_small_words word_no_def small_letters_def to_base_numeral)
section \<open>Generating a mnemonic\<close>

text \<open>
  Claim C9 says that \<open>generate\<close> fails with the length error exactly when the strength
  is not divisible by 32 and otherwise encodes \<open>strength / 8\<close> random bytes. A negative
  strength that is divisible by 32 passes the check, and \<^verbatim>\<open>os.urandom\<close> then raises
  on the negative size: at strength \<open>-32\<close> the call fails although 32 divides the
  strength, and with an exception no encoding ends in. And a strength that 32 divides
  can end in the length error: where the four random bytes of strength 32 are the
  digits \<^verbatim>\<open>0000\<close>, \<^verbatim>\<open>to_bytes\<close> reads them as two bytes and \<^verbatim>\<open>checksum\<close> raises.
\<close>

theorem generate_negative_strength:
  "(- 32 :: int) mod 32 = 0
   \<and> generate example_env small (- 32) True = Inl NegativeArgument
   \<and> (\<forall>data. to_mnemonic example_env small data True \<noteq> Inl NegativeArgument)
   \<and> (32 :: int) mod 32 = 0
   \<and> generate (example_env\<lparr>urandom := \<lambda>n. to_base 256 n 808464432\<rparr>) small 32 True
       = Inl InvalidLength"
proof -
  let ?E = "example_env\<lparr>urandom := \<lambda>n. to_base 256 n 808464432\<rparr>"
  have r: "urandom ?E (nat (32 div 8)) = [48, 48, 48, 48]"
    by (simp add: to_base_numeral)
  have b: "to_bytes ?E = hex_to_bytes" by (simp add: example_env_def)
  have "to_mnemonic ?E small (Seq [48, 48, 48, 48]) True = Inl InvalidLength"
    by (simp add: to_mnemonic_def checksum_def b hex_to_bytes_zeros)
  then have hex: "generate ?E small 32 True = Inl InvalidLength"
    unfolding generate_def r by simp
  have "generate example_env small (- 32) True = Inl NegativeArgument"
    by (simp add: generate_def)
  moreover have "to_mnemonic example_env small data True \<noteq> Inl NegativeArgument" for data
    by (auto dest: to_mnemonic_error)
  ultimately show ?thesis using hex by simp
qed

text \<open>
  Claim C9, amended. A strength that is not divisible by 32 gives the length error. A
  strength that is divisible by 32 and not negative gives what \<open>to_mnemonic\<close> gives on
  the \<open>strength / 8\<close> random bytes; this is not the length error when \<^verbatim>\<open>os.urandom\<close>
  returned as many bytes as it was asked for and \<^verbatim>\<open>to_bytes\<close> leaves them as they are.
  A negative strength divisible by 32 gives the error of \<^verbatim>\<open>os.urandom\<close>.
\<close>

theorem generate_strength:
  "(strength mod 32 \<noteq> 0 \<longrightarrow> generate E self strength c = Inl InvalidLength)
   \<and> (strength mod 32 = 0 \<and> 0 \<le> strength \<longrightarrow>
        generate E self strength c
          = to_mnemonic E self (Seq (urandom E (nat (strength div 8)))) c)
   \<and> (strength mod 32 = 0 \<and> 0 \<le> strength
        \<and> length (urandom E (nat (strength div 8))) = nat (strength div 8)
        \<and> to_bytes E (Seq (urandom E (nat (strength div 8))))
            = Seq (urandom E (nat (strength div 8))) \<longrightarrow>
        generate E self strength c \<noteq> Inl InvalidLength)
   \<and> (strength mod 32 = 0 \<and> strength < 0 \<longrightarrow>
        generate E self strength c = Inl NegativeArgument)"
proof (intro conjI impI)
  assume "strength mod 32 \<noteq> 0"
  moreover have "0 \<le> strength mod 32" by simp
  ultimately have "0 < strength mod 32" by linarith
  then show "generate E self strength c = Inl InvalidLength"
    by (simp add: generate_def)
next
  assume "strength mod 32 = 0 \<and> strength < 0"
  moreover from this have "strength div 8 < 0" by linarith
  ultimately show "generate E self strength c = Inl NegativeArgument"
    by (simp add: generate_def)
next
  assume *: "strength mod 32 = 0 \<and> 0 \<le> strength"
  then have "\<not> strength div 8 < 0" by linarith
  with * show "generate E self strength c
      = to_mnemonic E self (Seq (urandom E (nat (strength div 8)))) c"
    by (simp add: generate_def)
next
  let ?r = "urandom E (nat (strength div 8))"
  assume *: "strength mod 32 = 0 \<and> 0 \<le> strength
      \<and> length ?r = nat (strength div 8) \<and> to_bytes E (Seq ?r) = Seq ?r"
  then have "\<not> strength div 8 < 0" by linarith
  with * have eq: "generate E self strength c = to_mnemonic E self (Seq ?r) c"
    by (simp add: generate_def)
  from * obtain k where k: "strength = 32 * k" by (metis mod_0_imp_dvd dvdE)
  with * have "0 \<le> k" by simp
  then have "nat (strength div 8) = 4 * nat k" unfolding k by (simp add: nat_mult_distrib)
  with * have "length ?r mod 4 = 0" by simp
  with * show "generate E self strength c \<noteq> Inl InvalidLength"
    unfolding eq by (auto dest!: to_mnemonic_error)
qed

theorem generate_strength_witness:
  "generate example_env small 128 True
       = to_mnemonic example_env small (Seq (urandom example_env 16)) True
   \<and> length (urandom example_env 16) = 16
   \<and> to_bytes example_env (Seq (urandom example_env 16)) = Seq (urandom example_env 16)
   \<and> generate example_env small 128 True \<noteq> Inl InvalidLength
   \<and> generate example_env small 100 True = Inl InvalidLength
   \<and> generate example_env small (- 64) True = Inl NegativeArgument"
proof -
  have u: "some_bytes 16
      = [163, 179, 35, 183, 40, 184, 238, 4, 32, 246, 190, 161, 91, 26, 169, 177]"
    by (simp add: some_bytes_def to_base_numeral)
  have b: "to_bytes example_env (Seq (urandom example_env 16)) = Seq (urandom example_env 16)"
    unfolding example_simps u by (rule hex_to_bytes_high) simp_all
  have l: "length (urandom example_env 16) = 16" by (simp add: example_simps)
  have "generate example_env small 128 True
       = to_mnemonic example_env small (Seq (urandom example_env 16)) True"
    using generate_strength [of 128 example_env small True] by simp
  moreover have "generate example_env small 128 True \<noteq> Inl InvalidLength"
    by (rule generate_strength [THEN conjunct2, THEN conjunct2, THEN conjunct1, rule_format])
       (simp add: b l)
  moreover have "generate example_env small 100 True = Inl InvalidLength"
    using generate_strength [of 100 example_env small True] by simp
  moreover have "generate example_env small (- 64) True = Inl NegativeArgument"
    using generate_strength [of "- 64" example_env small True] by simp
  ultimately show ?thesis using b l by simp
qed
section \<open>The checksum\<close>

text \<open>
  Claim C4 takes the length test and the hash on \<open>data\<close> itself. The method takes both
  on what \<^verbatim>\<open>to_bytes\<close> returns for \<open>data\<close>: the four bytes \<^verbatim>\<open>0000\<close> are 32 bits, yet
  \<^verbatim>\<open>to_bytes\<close> reads them as the two bytes they spell in hex digits, and \<open>checksum\<close>
  fails with the length error.
\<close>

theorem checksum_hex_digits:
  "length [48, 48, 48, 48 :: nat] * 8 mod 32 = 0
   \<and> to_bytes example_env (Seq [48, 48, 48, 48]) = Seq [0, 0]
   \<and> checksum example_env (Seq [48, 48, 48, 48]) = Inl InvalidLength"
  by (simp add: checksum_def example_simps hex_to_bytes_zeros)

text \<open>
  Claim C4, amended. For every byte string \<open>data\<close>, with \<open>b\<close> the bytes that
  \<^verbatim>\<open>to_bytes\<close> returns for it: \<open>checksum data\<close> fails with the length error exactly when
  \<open>len(b) * 8\<close> is not divisible by 32; otherwise it returns the first
  \<open>len(b) * 8 / 32\<close> bits of the 256-bit numeral of the SHA-256 hash of \<open>b\<close>. The call
  \<^verbatim>\<open>change_base(hash, 256, 2, 256)\<close> is taken to return that numeral.
\<close>

theorem checksum_bits:
  assumes "to_bytes E (Seq data) = Seq b"
    and "rebases E (sha256 E b) 256 2 256 None 256"
  shows "checksum E (Seq data) =
           (if length b * 8 mod 32 \<noteq> 0 then Inl InvalidLength
            else Inr (take (length b * 8 div 32)
                        (to_base 2 256 (from_base 256 (sha256 E b)))))"
proof -
  have "length b * 8 mod 32 \<noteq> 0 \<longleftrightarrow> 0 < length b mod 4" by presburger
  with assms show ?thesis by (simp add: checksum_def rebases_def)
qed

theorem checksum_bits_witness:
  "to_bytes example_env (Seq [128, 0, 0, 1]) = Seq [128, 0, 0, 1]
   \<and> rebases example_env (sha256 example_env [128, 0, 0, 1]) 256 2 256 None 256
   \<and> checksum example_env (Seq [128, 0, 0, 1]) = Inr [1]
   \<and> checksum example_env (Seq [128, 0, 1]) = Inl InvalidLength
   \<and> to_bytes example_env (Seq [48, 48, 48, 48]) = Seq [0, 0]
   \<and> checksum example_env (Seq [48, 48, 48, 48]) = Inl InvalidLength"
proof -
  have b1: "to_bytes example_env (Seq [128, 0, 0, 1]) = Seq [128, 0, 0, 1]"
    unfolding example_simps by (rule hex_to_bytes_high) simp_all
  have b2: "to_bytes example_env (Seq [128, 0, 1]) = Seq [128, 0, 1]"
    unfolding example_simps by (rule hex_to_bytes_high) simp_all
  have b3: "to_bytes example_env (Seq [48, 48, 48, 48]) = Seq [0, 0]"
    by (simp add: example_simps hex_to_bytes_zeros)
  have "checksum example_env (Seq [128, 0, 0, 1]) = Inr [1]"
    using checksum_bits [OF b1 rebases_digest]
    by (simp add: example_simps digest_def from_base_Cons take_to_base from_base_to_base)
  moreover have "checksum example_env (Seq [128, 0, 1]) = Inl InvalidLength"
    using checksum_bits [OF b2 rebases_digest] by simp
  moreover have "checksum example_env (Seq [48, 48, 48, 48]) = Inl InvalidLength"
    using checksum_bits [OF b3 rebases_digest] by simp
  ultimately show ?thesis using b1 b3 rebases_digest by simp
qed
section \<open>Detecting the language\<close>

text \<open>
  Claim C8. In a directory as it is meant to be, with at least one word list:
  \<open>detect_language\<close> counts, for each registered word list, how many of the words of the
  normalized sentence are members; with \<open>m\<close> the greatest count, it fails with the
  unknown-language warning when \<open>m\<close> is zero and returns a language whose count is
  \<open>m\<close> otherwise; and \<open>m\<close> is zero exactly when no registered word list contains any
  word of the sentence.
\<close>

theorem detect_language_maximum:
  assumes "proper_dir E" and "registry E \<noteq> []"
  shows "let ws = split_space (normalize_string E S);
             counts = map (\<lambda>(l, wl). (l, length (filter (\<lambda>w. w \<in> set wl) ws))) (registry E);
             m = Max (snd ` set counts)
         in (m = 0 \<longrightarrow> detect_language E S = Inl UnknownLanguage)
          \<and> (0 < m \<longrightarrow> (\<exists>l. detect_language E S = Inr l \<and> (l, m) \<in> set counts))
          \<and> (m = 0 \<longleftrightarrow> (\<forall>(l, wl)\<in>set (registry E). \<forall>w\<in>set ws. w \<notin> set wl))"
proof -
  define ws where "ws = split_space (normalize_string E S)"
  define counts where
    "counts = map (\<lambda>(l, wl). (l, length (filter (\<lambda>w. w \<in> set wl) ws))) (registry E)"
  define m where "m = Max (snd ` set counts)"
  from detect_language_cases [OF assms, of S] obtain l wl where
    l: "(l, wl) \<in> set (registry E)"
    and le: "\<forall>(l', wl')\<in>set (registry E). count_words wl' ws \<le> count_words wl ws"
    and d: "detect_language E S = (if count_words wl ws = 0 then Inl UnknownLanguage else Inr l)"
    unfolding ws_def by blast
  have in_counts: "(l, count_words wl ws) \<in> set counts"
    using l unfolding counts_def by (force simp: count_words_filter)
  have "\<forall>n\<in>snd ` set counts. n \<le> count_words wl ws"
    using le unfolding counts_def by (fastforce simp: count_words_filter)
  moreover have "count_words wl ws \<in> snd ` set counts"
    using in_counts by force
  ultimately have m: "m = count_words wl ws"
    unfolding m_def by (intro Max_eqI) auto
  have zero: "m = 0 \<longleftrightarrow> (\<forall>(l, wl)\<in>set (registry E). \<forall>w\<in>set ws. w \<notin> set wl)"
  proof
    assume "m = 0"
    with le m have "\<forall>(l', wl')\<in>set (registry E). count_words wl' ws = 0" by fastforce
    then show "\<forall>(l, wl)\<in>set (registry E). \<forall>w\<in>set ws. w \<notin> set wl"
      by (fastforce simp: count_words_filter filter_empty_conv)
  next
    assume "\<forall>(l, wl)\<in>set (registry E). \<forall>w\<in>set ws. w \<notin> set wl"
    with l have "\<forall>w\<in>set ws. w \<notin> set wl" by fastforce
    then show "m = 0" unfolding m by (simp add: count_words_filter filter_empty_conv)
  qed
  have "(m = 0 \<longrightarrow> detect_language E S = Inl UnknownLanguage)
      \<and> (0 < m \<longrightarrow> (\<exists>l. detect_language E S = Inr l \<and> (l, m) \<in> set counts))"
    using d in_counts m by auto
  with zero show ?thesis
    unfolding Let_def ws_def [symmetric] counts_def [symmetric] m_def [symmetric] by blast
qed

theorem detect_language_maximum_witness:
  "proper_dir example_env \<and> registry example_env \<noteq> []
   \<and> detect_language example_env ''aab DAT dat'' = Inr ''small''
   \<and> detect_language example_env ''zzz'' = Inl UnknownLanguage"
proof -
  have r: "registry example_env \<noteq> []" by (simp add: registry_example_env)
  have "detect_language example_env ''aab DAT dat'' = Inr ''small''"
    using detect_language_maximum [OF proper_example_env r, of "''aab DAT dat''"]
    by (simp add: registry_example_env example_simps word_pos_simps)
  moreover have "detect_language example_env ''zzz'' = Inl UnknownLanguage"
    using detect_language_maximum [OF proper_example_env r, of "''zzz''"]
    by (simp add: registry_example_env example_simps word_pos_simps)
  ultimately show ?thesis using proper_example_env r by simp
qed
section \<open>Sanitizing a sentence\<close>

text \<open>
  Claim C7. Once the language of the normalized sentence is detected and its word list
  read: if some word of the normalized, split sentence is absent from that word list,
  \<open>sanitize_mnemonic\<close> fails with the unrecognised-word warning naming such a word;
  if every word is a member, it returns the words joined with single spaces, which is
  the normalized sentence.
\<close>

theorem sanitize_mnemonic_checks:
  assumes "detect_language E (normalize_string E S) = Inr l" and "read_wordlist E l = Inr wl"
  shows "let ws = split_space (normalize_string E S)
         in ((\<exists>w\<in>set ws. w \<notin> set wl) \<longrightarrow>
               (\<exists>w\<in>set ws. w \<notin> set wl \<and> sanitize_mnemonic E S = Inl (UnrecognisedWord w)))
          \<and> ((\<forall>w\<in>set ws. w \<in> set wl) \<longrightarrow>
               sanitize_mnemonic E S = Inr (join_space ws)
               \<and> join_space ws = normalize_string E S)"
proof -
  define ws where "ws = split_space (normalize_string E S)"
  have s: "sanitize_mnemonic E S =
      (case find (\<lambda>w. w \<notin> set wl) ws of
         Some w \<Rightarrow> Inl (UnrecognisedWord w)
       | None \<Rightarrow> Inr (join_space ws))"
    using assms unfolding ws_def sanitize_mnemonic_def Let_def by simp
  have "\<exists>w\<in>set ws. w \<notin> set wl \<and> sanitize_mnemonic E S = Inl (UnrecognisedWord w)"
    if "\<exists>w\<in>set ws. w \<notin> set wl"
  proof -
    from that obtain w where "find (\<lambda>w. w \<notin> set wl) ws = Some w"
      by (cases "find (\<lambda>w. w \<notin> set wl) ws") (auto simp: find_None_iff)
    moreover from this have "w \<in> set ws" and "w \<notin> set wl"
      by (auto simp: find_Some_iff)
    ultimately show ?thesis using s by auto
  qed
  moreover have "sanitize_mnemonic E S = Inr (join_space ws)
      \<and> join_space ws = normalize_string E S"
    if "\<forall>w\<in>set ws. w \<in> set wl"
  proof -
    from that have "find (\<lambda>w. w \<notin> set wl) ws = None" by (simp add: find_None_iff)
    with s show ?thesis by (simp add: ws_def)
  qed
  ultimately show ?thesis unfolding Let_def ws_def [symmetric] by blast
qed

theorem sanitize_mnemonic_checks_witness:
  "detect_language example_env (normalize_string example_env ''aab dat'') = Inr ''small''
   \<and> read_wordlist example_env ''small'' = Inr small_words
   \<and> sanitize_mnemonic example_env ''aab dat'' = Inr ''aab dat''
   \<and> detect_language example_env (normalize_string example_env ''aab DAT'') = Inr ''small''
   \<and> sanitize_mnemonic example_env ''aab DAT'' = Inl (UnrecognisedWord ''DAT'')"
proof -
  have d1: "detect_language example_env (normalize_string example_env ''aab dat'') = Inr ''small''"
    by (simp add: detect_simps)
  have d2: "detect_language example_env (normalize_string example_env ''aab DAT'') = Inr ''small''"
    by (simp add: detect_simps)
  have "sanitize_mnemonic example_env ''aab dat'' = Inr ''aab dat''"
    using sanitize_mnemonic_checks [OF d1 read_wordlist_example(1)]
    by (simp add: example_simps word_pos_simps)
  moreover have "sanitize_mnemonic example_env ''aab DAT'' = Inl (UnrecognisedWord ''DAT'')"
    using sanitize_mnemonic_checks [OF d2 read_wordlist_example(1)]
    by (simp add: example_simps word_pos_simps)
  ultimately show ?thesis using d1 d2 read_wordlist_example(1) by simp
qed
section \<open>Deriving the seed\<close>

lemma length_read [simp]: "length (read stream n) = n"
  by (simp add: read_def)

text \<open>
  Claim C3. For every sentence that sanitizes and every passphrase, the empty one
  included, \<open>to_seed\<close> returns the first 64 bytes of PBKDF2 with HMAC-SHA512, the
  normalized sanitized sentence as password, the bytes of \<^verbatim>\<open>mnemonic\<close> followed by the
  passphrase as salt, and 2048 iterations. The result is a function of the sentence and
  the passphrase alone, so two calls on the same pair return the same bytes.
\<close>

theorem to_seed_pbkdf2:
  assumes "sanitize_mnemonic E S = Inr S'"
  shows "to_seed E S P
           = Inr (read (pbkdf2 E (normalize_string E S') (''mnemonic'' @ P) 2048) 64)
       \<and> length (read (pbkdf2 E (normalize_string E S') (''mnemonic'' @ P) 2048) 64) = 64"
  using assms by (simp add: to_seed_def PBKDF2_ROUNDS_def)

theorem to_seed_pbkdf2_witness:
  "sanitize_mnemonic example_env ''aab dat'' = Inr ''aab dat''
   \<and> to_seed example_env ''aab dat'' []
       = Inr (read (keystream ''aab dat'' ''mnemonic'' 2048) 64)
   \<and> to_seed example_env ''aab dat'' ''TREZOR''
       = Inr (read (keystream ''aab dat'' ''mnemonicTREZOR'' 2048) 64)"
  using to_seed_pbkdf2 [OF sanitize_example, of "[]"]
    to_seed_pbkdf2 [OF sanitize_example, of "''TREZOR''"] sanitize_example
  by (simp add: example_simps)
section \<open>Decoding and the language of the instance\<close>

text \<open>
  Claim C5, amended. For every sentence passed to \<open>to_entropy\<close>, once sanitization has
  resolved the language of the sentence, each word is mapped to its index in the word
  list of the instance, which is the list of the language the instance was constructed
  with and not the list of the detected language: the first word that is not in the
  list of the instance raises the error of \<^verbatim>\<open>list.index\<close>, and when every word is in
  it the indices looked up there are decoded.
\<close>

theorem to_entropy_instance_words:
  assumes "sanitize_mnemonic E S = Inr S'"
  shows "to_entropy E self S c =
           (case find (\<lambda>w. w \<notin> set (wordlist self)) (split_space S') of
              Some w \<Rightarrow> Inl (NotInList w)
            | None \<Rightarrow>
                entropy_of_indices E
                  (map (\<lambda>w. the (first_index (wordlist self) w)) (split_space S')) c)"
  using assms by (simp add: to_entropy_def traverse_list_index_find split: option.splits)

theorem to_entropy_instance_words_witness:
  "sanitize_mnemonic example_env ''BNK AAA AAD'' = Inr ''BNK AAA AAD''
   \<and> to_entropy example_env small ''BNK AAA AAD'' True = Inl (NotInList ''BNK'')
   \<and> to_entropy example_env capital ''BNK AAA AAD'' True
       = entropy_of_indices example_env [1024, 0, 3] True"
  using to_entropy_instance_words [OF sanitize_capital_example, of small True]
    to_entropy_instance_words [OF sanitize_capital_example, of capital True]
    sanitize_capital_example
  by (simp add: small_def capital_def word_pos_simps numeral_3_eq_3)

end
